theory Spec2Isabelle
  imports Complex_Main "HOL-Library.Word"
begin

section \<open>Machine integers and the ordered map\<close>

text \<open>
  The registry of \<^verbatim>\<open>UE4Serialization.hpp\<close> keeps a \<^verbatim>\<open>std::map<int, TSubclassOfType>\<close>.
  An \<^verbatim>\<open>int\<close> is a 32-bit two's complement value, so identifiers are 32-bit words read
  with \<open>sint\<close>; \<^verbatim>\<open>std::numeric_limits<int>::min()\<close> and \<^verbatim>\<open>max()\<close> are the words whose
  signed values are \<open>- 2 ^ 31\<close> and \<open>2 ^ 31 - 1\<close>.
\<close>

type_synonym int32 = "32 word"

definition INT_MIN :: int32 where
  "INT_MIN = word_of_int (- (2 ^ 31))"

definition INT_MAX :: int32 where
  "INT_MAX = word_of_int (2 ^ 31 - 1)"

text \<open>
  A \<^verbatim>\<open>std::map\<close> holds at most one entry per key and iterates in ascending key order
  (\<^verbatim>\<open>std::less<int>\<close>, the signed order). It is modelled by the list of its entries in
  iteration order; \<open>map_ok\<close> is the container's representation invariant, and
  \<open>map_assign\<close> is \<^verbatim>\<open>m[k] = v\<close>: insert at the key's place, or overwrite the entry that
  is there. \<^verbatim>\<open>m.find(k)\<close> is \<open>map_of m k\<close>, with \<open>None\<close> for \<^verbatim>\<open>m.end()\<close>.
\<close>

type_synonym 'v std_map = "(int32 \<times> 'v) list"

definition map_ok :: "'v std_map \<Rightarrow> bool" where
  "map_ok m = sorted_wrt (\<lambda>a b. sint a < sint b) (map fst m)"

fun map_assign :: "'v std_map \<Rightarrow> int32 \<Rightarrow> 'v \<Rightarrow> 'v std_map" where
  "map_assign [] k v = [(k, v)]"
| "map_assign ((k', v') # m) k v =
     (if sint k < sint k' then (k, v) # (k', v') # m
      else if k = k' then (k, v) # m
      else (k', v') # map_assign m k v)"

section \<open>The class-reference registry\<close>

text \<open>
  \<^verbatim>\<open>TSubclassOfType\<close> is \<^verbatim>\<open>TSubclassOf<AActor>\<close>, a comparable wrapper around a class
  pointer that is declared outside this file. A handle is \<open>Some c\<close> for the class \<open>c\<close> and
  \<open>None\<close> for the default-constructed \<^verbatim>\<open>TSubclassOfType()\<close>.
\<close>

type_synonym 'c TSubclassOfType = "'c option"

type_synonym 'c TSubclassOfMap = "'c TSubclassOfType std_map"

text \<open>
  The loop of \<^verbatim>\<open>GetNextID\<close> has no test against \<^verbatim>\<open>std::numeric_limits<int>::max()\<close>: when
  every identifier from \<open>INT_MIN + 1\<close> to \<open>INT_MAX\<close> is taken, \<^verbatim>\<open>++NewId\<close> is a signed overflow,
  which is undefined behaviour in C++. The model stops there with \<open>SignedOverflow\<close> and
  says nothing of what a compiled program does afterwards.
\<close>

datatype error = SignedOverflow | ArchiveError | NegativeSize


text \<open>
  \<^verbatim>\<open>GetNextID\<close>: the loop
  \<^verbatim>\<open>while (Id != TSubclassOfMap.end()) { ++NewId; Id = TSubclassOfMap.find(NewId); }\<close>
  with \<open>NewId\<close> as the loop variable. It only calls \<^verbatim>\<open>find\<close>, so the map is not changed.
\<close>

function GetNextID_loop :: "'c TSubclassOfMap \<Rightarrow> int32 \<Rightarrow> error + int32" where
  "GetNextID_loop TSubclassOfMap NewId =
     (if map_of TSubclassOfMap NewId = None then Inr NewId
      else if NewId = INT_MAX then Inl SignedOverflow
      else GetNextID_loop TSubclassOfMap (NewId + 1))"
  by pat_completeness auto

termination GetNextID_loop
proof (relation "measure (\<lambda>(m, k). nat (2 ^ 31 - 1 - sint k))")
  show "wf (measure (\<lambda>(m :: 'c TSubclassOfMap, k :: int32). nat (2 ^ 31 - 1 - sint k)))"
    by simp
next
  fix TSubclassOfMap :: "'c TSubclassOfMap" and NewId :: int32
  assume ne: "NewId \<noteq> INT_MAX"
  have rng: "- (2 ^ 31) \<le> sint NewId" "sint NewId < 2 ^ 31"
    using sint_ge [of NewId] sint_lt [of NewId] by simp_all
  have below: "sint NewId \<noteq> 2 ^ 31 - 1"
  proof
    assume "sint NewId = 2 ^ 31 - 1"
    then have "sint NewId = sint INT_MAX" by (simp add: INT_MAX_def)
    then have "NewId = INT_MAX" by (rule signed_word_eqI)
    with ne show False by simp
  qed
  with rng have "signed_take_bit 31 (sint NewId + 1) = sint NewId + 1"
    by (intro signed_take_bit_int_eq_self) auto
  then have "sint (NewId + 1) = sint NewId + 1"
    by (simp add: sint_word_ariths)
  with rng below show "((TSubclassOfMap, NewId + 1), (TSubclassOfMap, NewId))
      \<in> measure (\<lambda>(m, k). nat (2 ^ 31 - 1 - sint k))"
    by simp
qed

declare GetNextID_loop.simps [simp del]

definition GetNextID :: "'c TSubclassOfMap \<Rightarrow> (error + int32) \<times> 'c TSubclassOfMap" where
  "GetNextID TSubclassOfMap = (GetNextID_loop TSubclassOfMap (INT_MIN + 1), TSubclassOfMap)"

text \<open>\<^verbatim>\<open>RegisterTSubclassOf(TSubclassOfType const& subclass)\<close>\<close>

definition RegisterTSubclassOf ::
  "'c TSubclassOfType \<Rightarrow> 'c TSubclassOfMap \<Rightarrow> error + 'c TSubclassOfMap" where
  "RegisterTSubclassOf subclass TSubclassOfMap =
     (case GetNextID TSubclassOfMap of
        (Inl e, m) \<Rightarrow> Inl e
      | (Inr NewId, m) \<Rightarrow> Inr (map_assign m NewId subclass))"

text \<open>
  \<^verbatim>\<open>GetIdOfTSubclassOf\<close>: the range-for over the map, returning at the first entry whose
  value equals \<open>subclass\<close>. The member functions that are not \<^verbatim>\<open>const\<close> return the map
  beside their result.
\<close>

fun GetIdOfTSubclassOf_loop :: "'c TSubclassOfMap \<Rightarrow> 'c TSubclassOfType \<Rightarrow> int32" where
  "GetIdOfTSubclassOf_loop [] subclass = INT_MIN"
| "GetIdOfTSubclassOf_loop (x # xs) subclass =
     (if snd x = subclass then fst x else GetIdOfTSubclassOf_loop xs subclass)"

definition GetIdOfTSubclassOf ::
  "'c TSubclassOfType \<Rightarrow> 'c TSubclassOfMap \<Rightarrow> int32 \<times> 'c TSubclassOfMap" where
  "GetIdOfTSubclassOf subclass TSubclassOfMap =
     (GetIdOfTSubclassOf_loop TSubclassOfMap subclass, TSubclassOfMap)"

text \<open>\<^verbatim>\<open>GetTSubclassOfFromId\<close>\<close>

definition GetTSubclassOfFromId ::
  "int32 \<Rightarrow> 'c TSubclassOfMap \<Rightarrow> 'c TSubclassOfType \<times> 'c TSubclassOfMap" where
  "GetTSubclassOfFromId id' TSubclassOfMap =
     (case map_of TSubclassOfMap id' of
        Some x \<Rightarrow> (x, TSubclassOfMap)
      | None \<Rightarrow> (None, TSubclassOfMap))"

definition GetNumberOfRegistrations :: "'c TSubclassOfMap \<Rightarrow> int32" where
  "GetNumberOfRegistrations TSubclassOfMap = word_of_nat (length TSubclassOfMap)"


section \<open>The archive\<close>

text \<open>
  Modelled from the spec: the archive is the serialization library the header is written
  against, and it is not part of this repository. Section 6 of the specification gives
  what the codecs need of it: reading and writing a scalar, a named field, a size tag, and
  a mode flag \<open>is_loading\<close>. An archive is the sequence of items it holds: an output archive
  appends what it is given, an input archive hands out its first item and fails when the
  item is of another kind or missing. A call \<^verbatim>\<open>ar(x)\<close> takes \<open>x\<close> by reference, so every
  codec returns the archive together with the value \<open>x\<close> has afterwards: unchanged when
  saving, read from the archive when loading.
\<close>

datatype 'r item = Float 'r | Int32 int32 | SizeTag "64 word" | Name string

datatype 'r archive = InputArchive "'r item list" | OutputArchive "'r item list"

type_synonym ('r, 'a) codec = "'r archive \<Rightarrow> 'a \<Rightarrow> error + ('r archive \<times> 'a)"

fun is_loading :: "'r archive \<Rightarrow> bool" where
  "is_loading (InputArchive inp) = True"
| "is_loading (OutputArchive out) = False"

definition and_then :: "error + 'a \<Rightarrow> ('a \<Rightarrow> error + 'b) \<Rightarrow> error + 'b" where
  "and_then r f = (case r of Inl e \<Rightarrow> Inl e | Inr x \<Rightarrow> f x)"

fun ar_float :: "('r, 'r) codec" where
  "ar_float (OutputArchive out) x = Inr (OutputArchive (out @ [Float x]), x)"
| "ar_float (InputArchive (Float y # inp)) x = Inr (InputArchive inp, y)"
| "ar_float (InputArchive inp) x = Inl ArchiveError"

fun ar_int32 :: "('r, int32) codec" where
  "ar_int32 (OutputArchive out) x = Inr (OutputArchive (out @ [Int32 x]), x)"
| "ar_int32 (InputArchive (Int32 y # inp)) x = Inr (InputArchive inp, y)"
| "ar_int32 (InputArchive inp) x = Inl ArchiveError"

fun make_size_tag :: "('r, 64 word) codec" where
  "make_size_tag (OutputArchive out) n = Inr (OutputArchive (out @ [SizeTag n]), n)"
| "make_size_tag (InputArchive (SizeTag k # inp)) n = Inr (InputArchive inp, k)"
| "make_size_tag (InputArchive inp) n = Inl ArchiveError"

fun make_nvp :: "string \<Rightarrow> ('r, 'a) codec \<Rightarrow> ('r, 'a) codec" where
  "make_nvp name ser (OutputArchive out) x = ser (OutputArchive (out @ [Name name])) x"
| "make_nvp name ser (InputArchive (Name n # inp)) x =
     (if n = name then ser (InputArchive inp) x else Inl ArchiveError)"
| "make_nvp name ser (InputArchive inp) x = Inl ArchiveError"

section \<open>The codecs\<close>

text \<open>
  \<^verbatim>\<open>serialize(A& ar, TSubclassOfType& obj)\<close>. When loading, \<^verbatim>\<open>int x; ar(x);\<close> reads into an
  uninitialised \<open>x\<close>; the value passed in is never looked at by an input archive.
\<close>

definition serialize_TSubclassOfType ::
  "'r archive \<Rightarrow> 'c TSubclassOfType \<Rightarrow> 'c TSubclassOfMap \<Rightarrow>
   error + ('r archive \<times> 'c TSubclassOfType \<times> 'c TSubclassOfMap)" where
  "serialize_TSubclassOfType ar obj registry =
     (if is_loading ar then
        and_then (ar_int32 ar 0) (\<lambda>(ar, x).
          case GetTSubclassOfFromId x registry of (obj, registry) \<Rightarrow> Inr (ar, obj, registry))
      else
        (case GetIdOfTSubclassOf obj registry of (x, registry) \<Rightarrow>
          and_then (ar_int32 ar x) (\<lambda>(ar, x). Inr (ar, obj, registry))))"

text \<open>
  \<^verbatim>\<open>FVector\<close> and \<^verbatim>\<open>FBox\<close> are engine types; the fields are the ones the header names. The
  component type \<open>'r\<close> stands for \<^verbatim>\<open>float\<close>: the codecs only move the values.
  \<^verbatim>\<open>serialize(A& ar, FVector& obj)\<close> is three calls, one per component.
\<close>

record 'r FVector =
  X :: 'r
  Y :: 'r
  Z :: 'r

definition serialize_FVector :: "('r, 'r FVector) codec" where
  "serialize_FVector ar obj =
     and_then (ar_float ar (X obj)) (\<lambda>(ar, v). let obj = obj\<lparr>X := v\<rparr> in
     and_then (ar_float ar (Y obj)) (\<lambda>(ar, v). let obj = obj\<lparr>Y := v\<rparr> in
     and_then (ar_float ar (Z obj)) (\<lambda>(ar, v). Inr (ar, obj\<lparr>Z := v\<rparr>))))"

text \<open>
  \<^verbatim>\<open>serialize(A& ar, FBox& in)\<close> is
  \<^verbatim>\<open>ar(make_nvp("IsValid", in.Max), make_nvp("Min", in.Min), make_nvp("Max", in.Max))\<close>:
  the three pairs are processed left to right, and the member bound to the name
  \<^verbatim>\<open>"IsValid"\<close> is \<^verbatim>\<open>in.Max\<close>. The fields \<open>Min\<close> and \<open>Max\<close> carry a prime here because HOL
  has constants of these names.
\<close>

record 'r FBox =
  Min' :: "'r FVector"
  Max' :: "'r FVector"
  IsValid :: "8 word"

definition serialize_FBox :: "('r, 'r FBox) codec" where
  "serialize_FBox ar in' =
     and_then (make_nvp ''IsValid'' serialize_FVector ar (Max' in')) (\<lambda>(ar, v).
       let in' = in'\<lparr>Max' := v\<rparr> in
     and_then (make_nvp ''Min'' serialize_FVector ar (Min' in')) (\<lambda>(ar, v).
       let in' = in'\<lparr>Min' := v\<rparr> in
     and_then (make_nvp ''Max'' serialize_FVector ar (Max' in')) (\<lambda>(ar, v).
       Inr (ar, in'\<lparr>Max' := v\<rparr>))))"

text \<open>
  \<^verbatim>\<open>TArray\<close> is the engine's dense array: a \<^verbatim>\<open>TArray\<close> is the list of its elements,
  \<^verbatim>\<open>Num()\<close> is the element count as an \<^verbatim>\<open>int32\<close>, and \<^verbatim>\<open>SetNum(n)\<close> cuts the array to \<open>n\<close>
  elements or fills it up to \<open>n\<close> with default-constructed ones (\<open>dflt\<close>); a negative
  \<open>n\<close> fails the engine's check. The casts are those of the header:
  \<^verbatim>\<open>static_cast<size_type>\<close> sign-extends to 64 bits, \<^verbatim>\<open>static_cast<int32>\<close> keeps the
  low 32 bits.
\<close>

type_synonym 'e TArray = "'e list"

definition Num :: "'e TArray \<Rightarrow> int32" where
  "Num in' = word_of_nat (length in')"

definition SetNum :: "'e \<Rightarrow> int32 \<Rightarrow> 'e TArray \<Rightarrow> error + 'e TArray" where
  "SetNum dflt NewNum out =
     (if sint NewNum < 0 then Inl NegativeSize
      else Inr (take (nat (sint NewNum)) out @ replicate (nat (sint NewNum) - length out) dflt))"

text \<open>\<^verbatim>\<open>CEREAL_SAVE_FUNCTION_NAME(A& a, const TArray<E, L>& in)\<close>, with its range-for.\<close>

fun save_TArray_loop :: "('r, 'e) codec \<Rightarrow> 'r archive \<Rightarrow> 'e list \<Rightarrow> error + 'r archive" where
  "save_TArray_loop ser a [] = Inr a"
| "save_TArray_loop ser a (e # es) =
     (case ser a e of Inl err \<Rightarrow> Inl err | Inr (a, e) \<Rightarrow> save_TArray_loop ser a es)"

definition save_TArray :: "('r, 'e) codec \<Rightarrow> 'r archive \<Rightarrow> 'e TArray \<Rightarrow> error + 'r archive" where
  "save_TArray ser a in' =
     and_then (make_size_tag a (scast (Num in'))) (\<lambda>(a, n). save_TArray_loop ser a in')"

text \<open>\<^verbatim>\<open>CEREAL_LOAD_FUNCTION_NAME(A& a, TArray<E, L>& out)\<close>, with its range-for.\<close>

fun load_TArray_loop ::
  "('r, 'e) codec \<Rightarrow> 'r archive \<Rightarrow> 'e list \<Rightarrow> error + ('r archive \<times> 'e list)" where
  "load_TArray_loop ser a [] = Inr (a, [])"
| "load_TArray_loop ser a (e # es) =
     (case ser a e of
        Inl err \<Rightarrow> Inl err
      | Inr (a, e) \<Rightarrow>
          (case load_TArray_loop ser a es of
             Inl err \<Rightarrow> Inl err
           | Inr (a, es) \<Rightarrow> Inr (a, e # es)))"

definition load_TArray ::
  "('r, 'e) codec \<Rightarrow> 'e \<Rightarrow> 'r archive \<Rightarrow> 'e TArray \<Rightarrow> error + ('r archive \<times> 'e TArray)" where
  "load_TArray ser dflt a out =
     and_then (make_size_tag a 0) (\<lambda>(a, size').
     and_then (SetNum dflt (ucast size') out) (\<lambda>out. load_TArray_loop ser a out))"

section \<open>Notions used to state the properties\<close>


definition free_ids :: "'v std_map \<Rightarrow> int32 set" where
  "free_ids m = {k. k \<noteq> INT_MIN \<and> k \<notin> fst ` set m}"

fun RegisterTSubclassOf_each ::
  "'c TSubclassOfType list \<Rightarrow> 'c TSubclassOfMap \<Rightarrow> error + 'c TSubclassOfMap" where
  "RegisterTSubclassOf_each [] m = Inr m"
| "RegisterTSubclassOf_each (h # hs) m =
     (case RegisterTSubclassOf h m of
        Inl e \<Rightarrow> Inl e
      | Inr m \<Rightarrow> RegisterTSubclassOf_each hs m)"

text \<open>
  The class-reference codec as the element codec of an array: \<^verbatim>\<open>a(e)\<close> on an element of a
  \<^verbatim>\<open>TArray<TSubclassOfType>\<close> calls \<open>serialize_TSubclassOfType\<close> with the registry of the
  process, which the codec does not change.
\<close>

definition serialize_TSubclassOfType_in ::
  "'c TSubclassOfMap \<Rightarrow> ('r, 'c TSubclassOfType) codec" where
  "serialize_TSubclassOfType_in registry ar obj =
     and_then (serialize_TSubclassOfType ar obj registry) (\<lambda>(ar, obj, registry). Inr (ar, obj))"

text \<open>The items \<open>serialize_FVector\<close> writes for a vector.\<close>

definition FVector_items :: "'r FVector \<Rightarrow> 'r item list" where
  "FVector_items v = [Float (X v), Float (Y v), Float (Z v)]"

text \<open>
  Concrete states. \<open>reg0\<close> has three entries, and the class \<open>10\<close> is registered twice,
  under \<open>INT_MIN + 1\<close> and under \<open>100\<close>. \<open>full_registry h\<close> holds \<open>h\<close> under every identifier
  from \<open>INT_MIN + 1\<close> to \<open>INT_MAX\<close>. \<open>box1\<close> is the valid box from \<open>(0, 0, 0)\<close> to
  \<open>(1, 2, 3)\<close>, and \<open>box_init\<close> is the box \<^verbatim>\<open>FBox(ForceInit)\<close> constructs.
\<close>

definition reg0 :: "nat TSubclassOfMap" where
  "reg0 = [(INT_MIN + 1, Some 10), (INT_MIN + 2, Some 20), (100, Some 10)]"

definition full_registry :: "'c TSubclassOfType \<Rightarrow> 'c TSubclassOfMap" where
  "full_registry h = map (\<lambda>i. (word_of_int i, h)) [sint INT_MIN + 1 .. sint INT_MAX]"

definition box1 :: "real FBox" where
  "box1 = \<lparr>Min' = \<lparr>X = 0, Y = 0, Z = 0\<rparr>, Max' = \<lparr>X = 1, Y = 2, Z = 3\<rparr>, IsValid = 1\<rparr>"

definition box_init :: "real FBox" where
  "box_init = \<lparr>Min' = \<lparr>X = 0, Y = 0, Z = 0\<rparr>, Max' = \<lparr>X = 0, Y = 0, Z = 0\<rparr>, IsValid = 0\<rparr>"

section \<open>Signed 32-bit values\<close>

lemma sint_INT_MIN: "sint INT_MIN = - (2 ^ 31)"
  by (simp add: INT_MIN_def)

lemma sint_INT_MAX: "sint INT_MAX = 2 ^ 31 - 1"
  by (simp add: INT_MAX_def)

lemma sint_int32_range: "- (2 ^ 31) \<le> sint (k :: int32) \<and> sint k \<le> 2 ^ 31 - 1"
  using sint_ge [of k] sint_lt [of k] by simp

lemma sint_succ:
  assumes "(k :: int32) \<noteq> INT_MAX"
  shows "sint (k + 1) = sint k + 1"
proof -
  have ne: "sint k \<noteq> 2 ^ 31 - 1"
  proof
    assume "sint k = 2 ^ 31 - 1"
    then have "sint k = sint INT_MAX" by (simp add: sint_INT_MAX)
    then have "k = INT_MAX" by (rule signed_word_eqI)
    with assms show False by simp
  qed
  have "sint (k + 1) = signed_take_bit 31 (sint k + 1)"
    by (simp add: sint_word_ariths)
  also have "\<dots> = sint k + 1"
    using sint_int32_range [of k] ne
    by (intro signed_take_bit_int_eq_self) auto
  finally show ?thesis .
qed

lemma sint_neq_less:
  "\<not> sint (k :: int32) < sint k' \<Longrightarrow> k \<noteq> k' \<Longrightarrow> sint k' < sint k"
  using signed_word_eqI [of k k', where ?'a = int] by force

lemma sint_INT_MIN_succ: "sint (INT_MIN + 1) = - (2 ^ 31) + 1"
  by (simp add: INT_MIN_def)

lemma above_INT_MIN: "sint (INT_MIN + 1) \<le> sint k \<longleftrightarrow> k \<noteq> INT_MIN"
proof
  assume "sint (INT_MIN + 1) \<le> sint k"
  then show "k \<noteq> INT_MIN" by (auto simp: sint_INT_MIN_succ sint_INT_MIN)
next
  assume "k \<noteq> INT_MIN"
  then have "sint INT_MIN < sint k"
    using sint_neq_less [of k INT_MIN] sint_int32_range [of k] by (fastforce simp: sint_INT_MIN)
  then show "sint (INT_MIN + 1) \<le> sint k" by (simp add: sint_INT_MIN_succ sint_INT_MIN)
qed


lemma sint_above_INT_MIN: "sint INT_MIN < sint k \<longleftrightarrow> k \<noteq> INT_MIN"
proof -
  have "sint INT_MIN < sint k \<longleftrightarrow> sint (INT_MIN + 1) \<le> sint k"
    unfolding sint_INT_MIN sint_INT_MIN_succ by presburger
  then show ?thesis by (simp add: above_INT_MIN)
qed

lemma sint_word_of_int32:
  "- (2 ^ 31) \<le> i \<Longrightarrow> i \<le> 2 ^ 31 - 1 \<Longrightarrow> sint (word_of_int i :: int32) = i"
  by (simp add: sint_sbintrunc' signed_take_bit_int_eq_self)

section \<open>Properties of the ordered map\<close>

lemma map_ok_Nil: "map_ok []"
  by (simp add: map_ok_def)

lemma map_ok_Cons:
  "map_ok ((k, v) # m) \<longleftrightarrow> (\<forall>k' \<in> fst ` set m. sint k < sint k') \<and> map_ok m"
  by (auto simp: map_ok_def)

lemma set_map_assign_keys: "fst ` set (map_assign m k v) = insert k (fst ` set m)"
  by (induction m) (force split: if_splits)+

lemma map_ok_assign: "map_ok m \<Longrightarrow> map_ok (map_assign m k v)"
proof (induction m)
  case Nil
  then show ?case by (simp add: map_ok_def)
next
  case (Cons a m)
  obtain k' v' where a: "a = (k', v')" by (cases a)
  from Cons.prems have tl: "map_ok m" and hd: "\<forall>j \<in> fst ` set m. sint k' < sint j"
    by (simp_all add: a map_ok_Cons)
  show ?case
  proof (cases "sint k < sint k'")
    case True
    with Cons.prems hd show ?thesis
      by (fastforce simp: a map_ok_Cons)
  next
    case False
    show ?thesis
    proof (cases "k = k'")
      case True
      with Cons.prems show ?thesis by (simp add: a map_ok_Cons)
    next
      case ne: False
      with False have "sint k' < sint k"
        by (rule sint_neq_less)
      with False ne hd Cons.IH [OF tl] show ?thesis
        by (auto simp: a map_ok_Cons set_map_assign_keys)
    qed
  qed
qed

lemma map_of_assign: "map_of (map_assign m k v) = (map_of m)(k \<mapsto> v)"
  by (induction m) (auto simp: fun_eq_iff)

lemma map_ok_distinct: "map_ok m \<Longrightarrow> distinct (map fst m)"
  by (induction m) (force simp: map_ok_Cons)+

lemma map_of_None_keys: "map_of m k = None \<longleftrightarrow> k \<notin> fst ` set m"
  by (simp add: map_of_eq_None_iff)

lemma length_map_assign:
  "map_ok m \<Longrightarrow>
   length (map_assign m k v) = (if map_of m k = None then Suc (length m) else length m)"
proof (induction m)
  case Nil
  then show ?case by simp
next
  case (Cons a m)
  obtain k' v' where a: "a = (k', v')" by (cases a)
  from Cons.prems have tl: "map_ok m" and hd: "\<forall>j \<in> fst ` set m. sint k' < sint j"
    by (simp_all add: a map_ok_Cons)
  have "map_of m k = None" if "sint k < sint k'"
    using that hd by (fastforce simp: map_of_None_keys)
  with Cons.IH [OF tl] show ?case
    by (auto simp: a)
qed

subsection \<open>Reverse lookup\<close>

lemma GetIdOfTSubclassOf_loop_unregistered:
  "subclass \<notin> snd ` set m \<Longrightarrow> GetIdOfTSubclassOf_loop m subclass = INT_MIN"
  by (induction m) auto

lemma GetIdOfTSubclassOf_loop_registered:
  "subclass \<in> snd ` set m \<Longrightarrow> (GetIdOfTSubclassOf_loop m subclass, subclass) \<in> set m"
  by (induction m) auto

lemma GetIdOfTSubclassOf_loop_first:
  "subclass \<in> snd ` set m \<Longrightarrow>
   \<exists>pre post. m = pre @ (GetIdOfTSubclassOf_loop m subclass, subclass) # post \<and>
     subclass \<notin> snd ` set pre"
proof (induction m)
  case Nil
  then show ?case by simp
next
  case (Cons a m)
  show ?case
  proof (cases "snd a = subclass")
    case True
    then have "a # m = [] @ (GetIdOfTSubclassOf_loop (a # m) subclass, subclass) # m"
      by (cases a) simp
    then show ?thesis by fastforce
  next
    case False
    with Cons.prems have "subclass \<in> snd ` set m" by auto
    from Cons.IH [OF this] obtain pre post where
      m: "m = pre @ (GetIdOfTSubclassOf_loop m subclass, subclass) # post"
      and pre: "subclass \<notin> snd ` set pre" by blast
    from False have eq: "GetIdOfTSubclassOf_loop (a # m) subclass = GetIdOfTSubclassOf_loop m subclass"
      by simp
    have "a # m = (a # pre) @ (GetIdOfTSubclassOf_loop (a # m) subclass, subclass) # post"
      using m by (simp only: eq append_Cons)
    moreover have "subclass \<notin> snd ` set (a # pre)" using pre False by auto
    ultimately show ?thesis by blast
  qed
qed

lemma GetIdOfTSubclassOf_loop_least:
  "map_ok m \<Longrightarrow> (k, subclass) \<in> set m \<Longrightarrow>
   sint (GetIdOfTSubclassOf_loop m subclass) \<le> sint k"
proof (induction m)
  case Nil
  then show ?case by simp
next
  case (Cons a m)
  obtain k' v' where a: "a = (k', v')" by (cases a)
  from Cons.prems have tl: "map_ok m" and hd: "\<forall>j \<in> fst ` set m. sint k' < sint j"
    by (simp_all add: a map_ok_Cons)
  show ?case
  proof (cases "v' = subclass")
    case True
    with Cons.prems(2) hd show ?thesis
      by (fastforce simp: a)
  next
    case False
    with Cons.prems(2) have "(k, subclass) \<in> set m" by (auto simp: a)
    with Cons.IH [OF tl] False show ?thesis by (simp add: a)
  qed
qed

lemma map_ok_map_of: "map_ok m \<Longrightarrow> (k, v) \<in> set m \<Longrightarrow> map_of m k = Some v"
  by (simp add: map_ok_distinct)

subsection \<open>The allocation scan\<close>

lemma GetNextID_loop_free: "map_of m k = None \<Longrightarrow> GetNextID_loop m k = Inr k"
  by (subst GetNextID_loop.simps) simp

lemma GetNextID_loop_last: "map_of m INT_MAX = Some v \<Longrightarrow> GetNextID_loop m INT_MAX = Inl SignedOverflow"
  by (subst GetNextID_loop.simps) simp

lemma GetNextID_loop_step:
  "map_of m k = Some v \<Longrightarrow> k \<noteq> INT_MAX \<Longrightarrow> GetNextID_loop m k = GetNextID_loop m (k + 1)"
  by (subst GetNextID_loop.simps) simp

lemma GetNextID_loop_finds:
  "\<exists>k. sint NewId \<le> sint k \<and> map_of m k = None \<Longrightarrow>
   \<exists>r. GetNextID_loop m NewId = Inr r \<and> map_of m r = None \<and> sint NewId \<le> sint r \<and>
       (\<forall>j. sint NewId \<le> sint j \<and> sint j < sint r \<longrightarrow> map_of m j \<noteq> None)"
proof (induction m NewId rule: GetNextID_loop.induct)
  case (1 m NewId)
  show ?case
  proof (cases "map_of m NewId = None")
    case True
    then have "GetNextID_loop m NewId = Inr NewId" by (rule GetNextID_loop_free)
    moreover have "\<forall>j. sint NewId \<le> sint j \<and> sint j < sint NewId \<longrightarrow> map_of m j \<noteq> None"
      by auto
    ultimately show ?thesis using True by blast
  next
    case False
    from "1.prems" obtain k where k: "sint NewId \<le> sint k" "map_of m k = None" by blast
    with False have "k \<noteq> NewId" by auto
    with k have lt: "sint NewId < sint k"
      using sint_neq_less [of k NewId] by fastforce
    have notmax: "NewId \<noteq> INT_MAX"
      using lt sint_int32_range [of k] by (auto simp: sint_INT_MAX)
    then have succ: "sint (NewId + 1) = sint NewId + 1" by (rule sint_succ)
    with lt have "sint (NewId + 1) \<le> sint k" by simp
    with k(2) have "\<exists>k. sint (NewId + 1) \<le> sint k \<and> map_of m k = None" by blast
    from "1.IH" [OF False notmax this] obtain r where r:
      "GetNextID_loop m (NewId + 1) = Inr r" "map_of m r = None" "sint (NewId + 1) \<le> sint r"
      "\<forall>j. sint (NewId + 1) \<le> sint j \<and> sint j < sint r \<longrightarrow> map_of m j \<noteq> None"
      by blast
    have "GetNextID_loop m NewId = Inr r"
      using False notmax r(1) by (auto simp: GetNextID_loop_step)
    moreover have "sint NewId \<le> sint r" using r(3) succ by simp
    moreover have "map_of m j \<noteq> None" if "sint NewId \<le> sint j" "sint j < sint r" for j
    proof (cases "j = NewId")
      case True
      with False show ?thesis by simp
    next
      case ne: False
      with that(1) have "sint NewId < sint j"
        using sint_neq_less [of j NewId] by fastforce
      with that(2) r(4) succ show ?thesis by simp
    qed
    ultimately show ?thesis using r(2) by blast
  qed
qed

lemma GetNextID_loop_exhausted:
  "\<forall>k. sint NewId \<le> sint k \<longrightarrow> map_of m k \<noteq> None \<Longrightarrow>
   GetNextID_loop m NewId = Inl SignedOverflow"
proof (induction m NewId rule: GetNextID_loop.induct)
  case (1 m NewId)
  from "1.prems" have here: "map_of m NewId \<noteq> None" by simp
  show ?case
  proof (cases "NewId = INT_MAX")
    case True
    with here show ?thesis by (auto simp: GetNextID_loop_last)
  next
    case False
    then have "sint (NewId + 1) = sint NewId + 1" by (rule sint_succ)
    with "1.prems" have "\<forall>k. sint (NewId + 1) \<le> sint k \<longrightarrow> map_of m k \<noteq> None" by simp
    from "1.IH" [OF here False this] here False show ?thesis
      by (auto simp: GetNextID_loop_step)
  qed
qed

section \<open>The registry lookups\<close>

lemma map_ok_reg0: "map_ok reg0"
  by (simp add: reg0_def map_ok_def INT_MIN_def)

text \<open>
  C5. For every registry state and every handle \<open>h\<close>: if \<open>idOf(h)\<close> is not the sentinel,
  then \<open>handleOf(idOf(h))\<close> is \<open>h\<close>. The registry states are the lists that satisfy the
  invariant of \<^verbatim>\<open>std::map\<close>.
\<close>

theorem handleOf_idOf:
  assumes "map_ok m"
    and "fst (GetIdOfTSubclassOf h m) \<noteq> INT_MIN"
  shows "fst (GetTSubclassOfFromId (fst (GetIdOfTSubclassOf h m)) m) = h"
proof -
  have "h \<in> snd ` set m"
  proof (rule ccontr)
    assume "h \<notin> snd ` set m"
    then have "GetIdOfTSubclassOf_loop m h = INT_MIN"
      by (rule GetIdOfTSubclassOf_loop_unregistered)
    with assms(2) show False by (simp add: GetIdOfTSubclassOf_def)
  qed
  then have "(GetIdOfTSubclassOf_loop m h, h) \<in> set m"
    by (rule GetIdOfTSubclassOf_loop_registered)
  with assms(1) have "map_of m (GetIdOfTSubclassOf_loop m h) = Some h"
    by (rule map_ok_map_of)
  then show ?thesis
    by (simp add: GetIdOfTSubclassOf_def GetTSubclassOfFromId_def)
qed

theorem handleOf_idOf_witness:
  "map_ok reg0 \<and> fst (GetIdOfTSubclassOf (Some 20) reg0) \<noteq> INT_MIN \<and>
   fst (GetTSubclassOfFromId (fst (GetIdOfTSubclassOf (Some 20) reg0)) reg0) = Some 20"
proof -
  have ne: "fst (GetIdOfTSubclassOf (Some 20) reg0) \<noteq> INT_MIN"
    by (simp add: reg0_def GetIdOfTSubclassOf_def INT_MIN_def)
  from handleOf_idOf [OF map_ok_reg0 ne] map_ok_reg0 ne show ?thesis by simp
qed

text \<open>
  C6. For every registry state and every handle \<open>h\<close> that no stored entry holds,
  \<open>idOf(h)\<close> is the sentinel, the least signed 32-bit value; the registry is left as it was.
\<close>

theorem idOf_unregistered:
  assumes "h \<notin> snd ` set m"
  shows "GetIdOfTSubclassOf h m = (INT_MIN, m) \<and> sint INT_MIN = - (2 ^ 31)"
  using assms
  by (simp add: GetIdOfTSubclassOf_def GetIdOfTSubclassOf_loop_unregistered sint_INT_MIN)

theorem idOf_unregistered_witness:
  "Some 30 \<notin> snd ` set reg0 \<and> GetIdOfTSubclassOf (Some 30) reg0 = (INT_MIN, reg0) \<and>
   sint INT_MIN = - (2 ^ 31)"
proof -
  have h: "Some 30 \<notin> snd ` set reg0" by (simp add: reg0_def)
  from idOf_unregistered [OF h] h show ?thesis by simp
qed

text \<open>
  C7. For every registry state and every identifier that is not a key of it,
  \<open>handleOf\<close> returns the empty handle: the result is a handle (the function has no error
  result), and the registry is returned unchanged.
\<close>

theorem handleOf_absent:
  assumes "id' \<notin> fst ` set m"
  shows "GetTSubclassOfFromId id' m = (None, m)"
proof -
  from assms have "map_of m id' = None" by (simp add: map_of_None_keys)
  then show ?thesis by (simp add: GetTSubclassOfFromId_def)
qed

theorem handleOf_absent_witness:
  "- 999999 \<notin> fst ` set reg0 \<and> GetTSubclassOfFromId (- 999999) reg0 = (None, reg0)"
proof -
  have h: "- 999999 \<notin> fst ` set reg0" by (simp add: reg0_def INT_MIN_def)
  from handleOf_absent [OF h] h show ?thesis by simp
qed

text \<open>
  C8. If a handle is registered under two or more identifiers, \<open>idOf\<close> returns the first
  matching entry in the iteration order of the map, which is the entry with the least
  identifier (in the signed order) among those that hold the handle.
\<close>

theorem idOf_first_match:
  assumes "map_ok m"
    and "(k1, h) \<in> set m" and "(k2, h) \<in> set m" and "k1 \<noteq> k2"
  shows "\<exists>pre post. m = pre @ (fst (GetIdOfTSubclassOf h m), h) # post \<and> h \<notin> snd ` set pre \<and>
           (\<forall>k. (k, h) \<in> set m \<longrightarrow> sint (fst (GetIdOfTSubclassOf h m)) \<le> sint k)"
proof -
  from assms(2) have "h \<in> snd ` set m" by force
  from GetIdOfTSubclassOf_loop_first [OF this] obtain pre post where
    "m = pre @ (GetIdOfTSubclassOf_loop m h, h) # post" "h \<notin> snd ` set pre" by blast
  moreover have "\<forall>k. (k, h) \<in> set m \<longrightarrow> sint (GetIdOfTSubclassOf_loop m h) \<le> sint k"
    using assms(1) by (blast intro: GetIdOfTSubclassOf_loop_least)
  ultimately show ?thesis by (simp add: GetIdOfTSubclassOf_def) blast
qed

theorem idOf_first_match_witness:
  "map_ok reg0 \<and> (INT_MIN + 1, Some 10) \<in> set reg0 \<and> (100, Some 10) \<in> set reg0 \<and>
   INT_MIN + 1 \<noteq> (100 :: int32) \<and> fst (GetIdOfTSubclassOf (Some 10) reg0) = INT_MIN + 1 \<and>
   (\<exists>pre post. reg0 = pre @ (fst (GetIdOfTSubclassOf (Some 10) reg0), Some 10) # post \<and>
      Some 10 \<notin> snd ` set pre \<and>
      (\<forall>k. (k, Some 10) \<in> set reg0 \<longrightarrow> sint (fst (GetIdOfTSubclassOf (Some 10) reg0)) \<le> sint k))"
proof -
  have a: "(INT_MIN + 1, Some 10) \<in> set reg0" by (simp add: reg0_def)
  have b: "(100, Some 10) \<in> set reg0" by (simp add: reg0_def)
  have c: "INT_MIN + 1 \<noteq> (100 :: int32)" by (simp add: INT_MIN_def)
  have d: "fst (GetIdOfTSubclassOf (Some 10) reg0) = INT_MIN + 1"
    by (simp add: reg0_def GetIdOfTSubclassOf_def)
  from idOf_first_match [OF map_ok_reg0 a b c] map_ok_reg0 a b c d show ?thesis by blast
qed

text \<open>
  C10. The allocation scan terminates and returns an identifier that is not a key of the
  registry, whenever some identifier from \<open>INT_MIN + 1\<close> to \<open>INT_MAX\<close> is free. The scan is a
  total function; under the hypothesis its result is an identifier and not the overflow.
\<close>

theorem GetNextID_returns_free:
  assumes "\<exists>k. sint (INT_MIN + 1) \<le> sint k \<and> sint k \<le> sint INT_MAX \<and> k \<notin> fst ` set m"
  shows "\<exists>NewId. GetNextID m = (Inr NewId, m) \<and> NewId \<notin> fst ` set m"
proof -
  from assms have "\<exists>k. sint (INT_MIN + 1) \<le> sint k \<and> map_of m k = None"
    by (auto simp: map_of_None_keys)
  from GetNextID_loop_finds [OF this] obtain r where
    "GetNextID_loop m (INT_MIN + 1) = Inr r" "map_of m r = None" by blast
  then show ?thesis by (simp add: GetNextID_def map_of_None_keys)
qed

theorem GetNextID_returns_free_witness:
  "(\<exists>k. sint (INT_MIN + 1) \<le> sint k \<and> sint k \<le> sint INT_MAX \<and> k \<notin> fst ` set reg0) \<and>
   (\<exists>NewId. GetNextID reg0 = (Inr NewId, reg0) \<and> NewId \<notin> fst ` set reg0) \<and>
   GetNextID reg0 = (Inr (INT_MIN + 3), reg0)"
proof -
  have "sint (INT_MIN + 1) \<le> sint (7 :: int32) \<and> sint (7 :: int32) \<le> sint INT_MAX \<and>
      7 \<notin> fst ` set reg0"
    by (simp add: reg0_def INT_MIN_def INT_MAX_def)
  then have h: "\<exists>k. sint (INT_MIN + 1) \<le> sint k \<and> sint k \<le> sint INT_MAX \<and> k \<notin> fst ` set reg0"
    by blast
  have v: "GetNextID reg0 = (Inr (INT_MIN + 3), reg0)"
    by (simp add: reg0_def GetNextID_def GetNextID_loop.simps INT_MIN_def INT_MAX_def)
  from GetNextID_returns_free [OF h] h v show ?thesis by blast
qed

section \<open>The sentinel as a key\<close>




section \<open>The class-reference codec\<close>






section \<open>Automatic registration\<close>

lemma free_ids_assign: "free_ids (map_assign m k v) = free_ids m - {k}"
  by (auto simp: free_ids_def set_map_assign_keys)

lemma finite_free_ids: "finite (free_ids m)"
  by simp

lemma RegisterTSubclassOf_first_fit:
  assumes "free_ids m \<noteq> {}"
  shows "\<exists>k. RegisterTSubclassOf h m = Inr (map_assign m k h) \<and> k \<in> free_ids m \<and>
           (\<forall>j. sint INT_MIN < sint j \<and> sint j < sint k \<longrightarrow> j \<in> fst ` set m)"
proof -
  from assms obtain k0 where "k0 \<noteq> INT_MIN" "map_of m k0 = None"
    by (auto simp: free_ids_def map_of_None_keys)
  then have "\<exists>k. sint (INT_MIN + 1) \<le> sint k \<and> map_of m k = None"
    by (auto simp: above_INT_MIN)
  from GetNextID_loop_finds [OF this] obtain r where r:
    "GetNextID_loop m (INT_MIN + 1) = Inr r" "map_of m r = None" "sint (INT_MIN + 1) \<le> sint r"
    "\<forall>j. sint (INT_MIN + 1) \<le> sint j \<and> sint j < sint r \<longrightarrow> map_of m j \<noteq> None"
    by blast
  have "RegisterTSubclassOf h m = Inr (map_assign m r h)"
    using r(1) by (simp add: RegisterTSubclassOf_def GetNextID_def)
  moreover have "r \<in> free_ids m"
    using r(2,3) by (simp add: free_ids_def above_INT_MIN map_of_None_keys)
  moreover have "\<forall>j. sint INT_MIN < sint j \<and> sint j < sint r \<longrightarrow> j \<in> fst ` set m"
    using r(4) by (auto simp: sint_above_INT_MIN above_INT_MIN map_of_None_keys)
  ultimately show ?thesis by blast
qed

text \<open>
  C4, as amended. On a registry with at least \<open>n\<close> free identifiers above the sentinel, \<open>n\<close>
  successive automatic registrations all succeed and store \<open>n\<close> entries: the handles end up
  under \<open>n\<close> distinct identifiers \<open>ks\<close>, each greater than the sentinel and none a key of the
  starting registry, the other entries are as before, and each identifier is the first
  fit: every identifier between the sentinel and it was a key of the starting registry or
  was allocated by an earlier call.
\<close>

theorem registerAuto_n_times:
  assumes "map_ok m" and "length hs \<le> card (free_ids m)"
  shows "\<exists>ks m'. RegisterTSubclassOf_each hs m = Inr m' \<and>
           length ks = length hs \<and> distinct ks \<and>
           (\<forall>k \<in> set ks. sint INT_MIN < sint k \<and> k \<notin> fst ` set m) \<and>
           (\<forall>i < length hs. map_of m' (ks ! i) = Some (hs ! i)) \<and>
           (\<forall>k. k \<notin> set ks \<longrightarrow> map_of m' k = map_of m k) \<and>
           map_ok m' \<and> length m' = length m + length hs \<and>
           (\<forall>i < length hs. \<forall>j. sint INT_MIN < sint j \<and> sint j < sint (ks ! i) \<longrightarrow>
              j \<in> fst ` set m \<union> set (take i ks))"
  using assms
proof (induction hs arbitrary: m)
  case Nil
  then show ?case by simp
next
  case (Cons h hs)
  from Cons.prems(2) have "free_ids m \<noteq> {}" by auto
  from RegisterTSubclassOf_first_fit [OF this, of h] obtain k where k:
    "RegisterTSubclassOf h m = Inr (map_assign m k h)" "k \<in> free_ids m"
    "\<forall>j. sint INT_MIN < sint j \<and> sint j < sint k \<longrightarrow> j \<in> fst ` set m"
    by blast
  define m1 where "m1 = map_assign m k h"
  have ok1: "map_ok m1" using Cons.prems(1) by (simp add: m1_def map_ok_assign)
  have kfree: "k \<noteq> INT_MIN" "k \<notin> fst ` set m" using k(2) by (simp_all add: free_ids_def)
  have "card (free_ids m1) = card (free_ids m) - 1"
    using k(2) by (simp add: m1_def free_ids_assign)
  with Cons.prems(2) have cap: "length hs \<le> card (free_ids m1)" by simp
  from Cons.IH [OF ok1 cap] obtain ks m' where ih:
    "RegisterTSubclassOf_each hs m1 = Inr m'" "length ks = length hs" "distinct ks"
    "\<forall>k \<in> set ks. sint INT_MIN < sint k \<and> k \<notin> fst ` set m1"
    "\<forall>i < length hs. map_of m' (ks ! i) = Some (hs ! i)"
    "\<forall>k. k \<notin> set ks \<longrightarrow> map_of m' k = map_of m1 k"
    "map_ok m'" "length m' = length m1 + length hs"
    "\<forall>i < length hs. \<forall>j. sint INT_MIN < sint j \<and> sint j < sint (ks ! i) \<longrightarrow>
       j \<in> fst ` set m1 \<union> set (take i ks)"
    by blast
  have keys1: "fst ` set m1 = insert k (fst ` set m)"
    by (simp add: m1_def set_map_assign_keys)
  have knew: "k \<notin> set ks" using ih(4) keys1 by auto
  have c1: "RegisterTSubclassOf_each (h # hs) m = Inr m'"
    using k(1) ih(1) by (simp add: m1_def)
  have c2: "length (k # ks) = length (h # hs)" using ih(2) by simp
  have c3: "distinct (k # ks)" using ih(3) knew by simp
  have c4: "\<forall>k' \<in> set (k # ks). sint INT_MIN < sint k' \<and> k' \<notin> fst ` set m"
    using ih(4) kfree keys1 by (auto simp: sint_above_INT_MIN)
  have c5: "\<forall>i < length (h # hs). map_of m' ((k # ks) ! i) = Some ((h # hs) ! i)"
  proof (intro allI impI)
    fix i assume "i < length (h # hs)"
    show "map_of m' ((k # ks) ! i) = Some ((h # hs) ! i)"
    proof (cases i)
      case 0
      have "map_of m' k = map_of m1 k" using ih(6) knew by simp
      then show ?thesis using 0 by (simp add: m1_def map_of_assign)
    next
      case (Suc n)
      with \<open>i < length (h # hs)\<close> ih(5) show ?thesis by simp
    qed
  qed
  have c6: "\<forall>k'. k' \<notin> set (k # ks) \<longrightarrow> map_of m' k' = map_of m k'"
    using ih(6) by (simp add: m1_def map_of_assign)
  have c8: "length m' = length m + length (h # hs)"
    using ih(8) kfree(2) Cons.prems(1)
    by (simp add: m1_def length_map_assign map_of_None_keys)
  have c9: "\<forall>i < length (h # hs). \<forall>j. sint INT_MIN < sint j \<and> sint j < sint ((k # ks) ! i) \<longrightarrow>
       j \<in> fst ` set m \<union> set (take i (k # ks))"
  proof (intro allI impI)
    fix i and j :: int32 assume i: "i < length (h # hs)"
      and j: "sint INT_MIN < sint j \<and> sint j < sint ((k # ks) ! i)"
    show "j \<in> fst ` set m \<union> set (take i (k # ks))"
    proof (cases i)
      case 0
      with j k(3) show ?thesis by simp
    next
      case (Suc n)
      with i j ih(9) have "j \<in> fst ` set m1 \<union> set (take n ks)" by simp
      with Suc keys1 show ?thesis by auto
    qed
  qed
  from c1 c2 c3 c4 c5 c6 ih(7) c8 c9 show ?case by blast
qed

lemma card_free_ids_ge: "2 ^ 32 - 1 - length m \<le> card (free_ids m)"
proof -
  have "free_ids m = (UNIV - {INT_MIN}) - fst ` set m"
    by (auto simp: free_ids_def)
  then have "card (free_ids m) \<ge> card (UNIV - {INT_MIN} :: int32 set) - card (fst ` set m)"
    using diff_card_le_card_Diff [of "fst ` set m" "UNIV - {INT_MIN}"] by simp
  moreover have "card (UNIV - {INT_MIN} :: int32 set) = 2 ^ 32 - 1"
    by (simp add: card_Diff_singleton card_word)
  moreover have "card (fst ` set m) \<le> length m"
    by (metis card_image_le card_length le_trans List.finite_set)
  ultimately show ?thesis by linarith
qed


lemma each0: "RegisterTSubclassOf_each [Some 30, Some 40] reg0 =
     Inr [(INT_MIN + 1, Some 10), (INT_MIN + 2, Some 20), (INT_MIN + 3, Some 30),
          (INT_MIN + 4, Some 40), (100, Some 10)]"
  by (simp add: reg0_def RegisterTSubclassOf_def GetNextID_def GetNextID_loop.simps
        INT_MIN_def INT_MAX_def)

lemma cap0: "length [Some 30, Some (40::nat)] \<le> card (free_ids reg0)"
  using card_free_ids_ge [of reg0] by (simp add: reg0_def)

theorem registerAuto_n_times_witness:
  "map_ok reg0 \<and> length [Some 30, Some (40 :: nat)] \<le> card (free_ids reg0) \<and>
   RegisterTSubclassOf_each [Some 30, Some 40] reg0 =
     Inr [(INT_MIN + 1, Some 10), (INT_MIN + 2, Some 20), (INT_MIN + 3, Some 30),
          (INT_MIN + 4, Some 40), (100, Some 10)] \<and>
   (\<exists>ks m'. RegisterTSubclassOf_each [Some 30, Some 40] reg0 = Inr m' \<and>
      length ks = length [Some 30, Some (40 :: nat)] \<and> distinct ks \<and>
      (\<forall>k \<in> set ks. sint INT_MIN < sint k \<and> k \<notin> fst ` set reg0))"
proof -
  from registerAuto_n_times [OF map_ok_reg0 cap0]
  have "\<exists>ks m'. RegisterTSubclassOf_each [Some 30, Some 40] reg0 = Inr m' \<and>
      length ks = length [Some 30, Some (40 :: nat)] \<and> distinct ks \<and>
      (\<forall>k \<in> set ks. sint INT_MIN < sint k \<and> k \<notin> fst ` set reg0)"
    by blast
  with map_ok_reg0 cap0 each0 show ?thesis by blast
qed

subsection \<open>The full registry\<close>

lemma set_full_registry: "set (full_registry h) = {(k, h) | k. k \<noteq> INT_MIN}"
proof (intro set_eqI iffI)
  fix p assume "p \<in> set (full_registry h)"
  then obtain i where i: "sint INT_MIN + 1 \<le> i" "i \<le> sint INT_MAX" "p = (word_of_int i, h)"
    by (auto simp: full_registry_def)
  then have "- (2 ^ 31) \<le> i" "i \<le> 2 ^ 31 - 1"
    by (simp_all add: sint_INT_MIN sint_INT_MAX)
  then have "sint (word_of_int i :: int32) = i"
    by (rule sint_word_of_int32)
  with i(1) have "sint INT_MIN < sint (word_of_int i :: int32)" by simp
  then have "(word_of_int i :: int32) \<noteq> INT_MIN" by (simp add: sint_above_INT_MIN)
  with i(3) show "p \<in> {(k, h) | k. k \<noteq> INT_MIN}" by simp
next
  fix p assume "p \<in> {(k, h) | k. k \<noteq> INT_MIN}"
  then obtain k where k: "p = (k, h)" "k \<noteq> INT_MIN" by blast
  then have "sint INT_MIN < sint k" by (simp add: sint_above_INT_MIN)
  moreover have "sint k \<le> sint INT_MAX" using sint_int32_range [of k] by (simp add: sint_INT_MAX)
  ultimately have "sint k \<in> set [sint INT_MIN + 1 .. sint INT_MAX]" by simp
  then have "(word_of_int (sint k), h) \<in> set (full_registry h)"
    unfolding full_registry_def set_map by (rule imageI)
  with k(1) show "p \<in> set (full_registry h)" by simp
qed

lemma map_of_full_registry:
  assumes "k \<noteq> INT_MIN"
  shows "map_of (full_registry h) k = Some h"
proof -
  from assms have "k \<in> fst ` set (full_registry h)"
    by (force simp: set_full_registry)
  then obtain v where v: "map_of (full_registry h) k = Some v"
    using map_of_None_keys [of "full_registry h" k] by fastforce
  then have "(k, v) \<in> set (full_registry h)" by (rule map_of_SomeD)
  then have "v = h" by (simp add: set_full_registry)
  with v show ?thesis by simp
qed

lemma GetNextID_full_registry:
  "GetNextID_loop (full_registry h) (INT_MIN + 1) = Inl SignedOverflow"
proof (rule GetNextID_loop_exhausted, intro allI impI)
  fix k :: int32
  assume "sint (INT_MIN + 1) \<le> sint k"
  then have "k \<noteq> INT_MIN" by (simp add: above_INT_MIN)
  then show "map_of (full_registry h) k \<noteq> None" by (simp add: map_of_full_registry)
qed

lemma map_ok_full_registry: "map_ok (full_registry h)"
proof -
  have "sorted_wrt (\<lambda>a b. sint (word_of_int a :: int32) < sint (word_of_int b :: int32))
      [sint INT_MIN + 1 .. sint INT_MAX]"
  proof (rule sorted_wrt_mono_rel [OF _ sorted_wrt_upto])
    fix a b :: int
    assume "a \<in> set [sint INT_MIN + 1 .. sint INT_MAX]" "b \<in> set [sint INT_MIN + 1 .. sint INT_MAX]"
      "a < b"
    then have "sint INT_MIN + 1 \<le> a" "a \<le> sint INT_MAX" "sint INT_MIN + 1 \<le> b" "b \<le> sint INT_MAX"
      by simp_all
    then have "- (2 ^ 31) \<le> a" "a \<le> 2 ^ 31 - 1" "- (2 ^ 31) \<le> b" "b \<le> 2 ^ 31 - 1"
      by (simp_all add: sint_INT_MIN sint_INT_MAX)
    then have "sint (word_of_int a :: int32) = a" "sint (word_of_int b :: int32) = b"
      by (simp_all only: sint_word_of_int32)
    with \<open>a < b\<close> show "sint (word_of_int a :: int32) < sint (word_of_int b :: int32)"
      by simp
  qed
  then show ?thesis
    by (simp add: map_ok_def full_registry_def sorted_wrt_map comp_def)
qed

text \<open>
  C4 as stated fails on a registry that has no free identifier: in the full registry the
  scan reaches \<open>INT_MAX\<close> with every identifier taken, the increment overflows, and no
  entry is stored.
\<close>

theorem registerAuto_full_counterexample:
  "map_ok (full_registry (Some (0 :: nat))) \<and>
   RegisterTSubclassOf (Some 1) (full_registry (Some (0 :: nat))) = Inl SignedOverflow"
  by (simp add: map_ok_full_registry RegisterTSubclassOf_def GetNextID_def
      GetNextID_full_registry)

section \<open>The box codec\<close>

lemma serialize_FVector_save:
  "serialize_FVector (OutputArchive out) v =
     Inr (OutputArchive (out @ [Float (X v), Float (Y v), Float (Z v)]), v)"
  by (simp add: serialize_FVector_def and_then_def)

lemma serialize_FVector_load:
  "serialize_FVector (InputArchive (Float x # Float y # Float z # inp)) v =
     Inr (InputArchive inp, v\<lparr>X := x, Y := y, Z := z\<rparr>)"
  by (simp add: serialize_FVector_def and_then_def)

lemma serialize_FBox_save:
  "serialize_FBox (OutputArchive out) b =
     Inr (OutputArchive (out @ Name ''IsValid'' # FVector_items (Max' b) @
            Name ''Min'' # FVector_items (Min' b) @ Name ''Max'' # FVector_items (Max' b)), b)"
  by (simp add: serialize_FBox_def serialize_FVector_save and_then_def FVector_items_def)

lemma serialize_FBox_load:
  "serialize_FBox (InputArchive (Name ''IsValid'' # FVector_items (Max' b) @
            Name ''Min'' # FVector_items (Min' b) @ Name ''Max'' # FVector_items (Max' b) @ inp)) d =
     Inr (InputArchive inp, b\<lparr>IsValid := IsValid d\<rparr>)"
  by (simp add: serialize_FBox_def serialize_FVector_load and_then_def FVector_items_def)

text \<open>
  C1 fails on the code. The claim is that loading what was saved gives the box back, each
  named field written and read once. Saving \<open>box1\<close> writes \<open>Max\<close> under the name
  \<^verbatim>\<open>"IsValid"\<close>, then \<open>Min\<close>, then \<open>Max\<close> again, and never the member \<open>IsValid\<close>; loading these
  items into a freshly initialised box gives back \<open>Min\<close> and \<open>Max\<close> and leaves \<open>IsValid\<close> at
  \<open>0\<close>, so the loaded box is not the saved one.
\<close>

theorem FBox_IsValid_not_serialized:
  "serialize_FBox (OutputArchive []) box1 =
     Inr (OutputArchive
       [Name ''IsValid'', Float 1, Float 2, Float 3,
        Name ''Min'', Float 0, Float 0, Float 0,
        Name ''Max'', Float 1, Float 2, Float 3], box1) \<and>
   serialize_FBox (InputArchive
       [Name ''IsValid'', Float 1, Float 2, Float 3,
        Name ''Min'', Float 0, Float 0, Float 0,
        Name ''Max'', Float 1, Float 2, Float 3]) box_init =
     Inr (InputArchive [], box1\<lparr>IsValid := 0\<rparr>) \<and>
   box1\<lparr>IsValid := 0\<rparr> \<noteq> box1"
  by (simp add: serialize_FBox_def serialize_FVector_def and_then_def box1_def box_init_def)

section \<open>The dense sequence codec\<close>

lemma save_TArray_loop_appends:
  assumes "\<And>out x. ser (OutputArchive out) x = Inr (OutputArchive (out @ enc x), x)"
  shows "save_TArray_loop ser (OutputArchive out) s = Inr (OutputArchive (out @ concat (map enc s)))"
  by (induction s arbitrary: out) (simp_all add: assms)

lemma load_TArray_loop_reads:
  assumes "\<And>inp x d. ser (InputArchive (enc x @ inp)) d = Inr (InputArchive inp, dec x d)"
  shows "length ds = length s \<Longrightarrow>
    load_TArray_loop ser (InputArchive (concat (map enc s) @ inp)) ds =
      Inr (InputArchive inp, map2 dec s ds)"
proof (induction s arbitrary: ds)
  case Nil
  then show ?case by simp
next
  case (Cons x s)
  then obtain d ds' where ds: "ds = d # ds'" "length ds' = length s"
    by (cases ds) auto
  from Cons.IH [OF ds(2)] show ?case
    by (simp add: ds(1) assms)
qed

lemma map2_first:
  "length ds = length s \<Longrightarrow> (\<forall>x d. dec x d = x) \<Longrightarrow> map2 dec s ds = s"
  by (induction s arbitrary: ds) (auto simp: length_Suc_conv)

lemma sint_Num:
  assumes "length s < 2 ^ 31"
  shows "sint (Num s) = int (length s)"
proof -
  from assms have "int (length s) < 2 ^ 31"
    by (metis of_nat_less_iff of_nat_numeral of_nat_power)
  then have "sint (word_of_int (int (length s)) :: int32) = int (length s)"
    by (intro sint_word_of_int32) simp_all
  then show ?thesis by (simp add: Num_def)
qed

lemma ucast_scast_int32: "(ucast (scast (w :: int32) :: 64 word) :: int32) = w"
  by (rule bit_word_eqI) (auto simp: bit_simps)

lemma unat_size_tag:
  assumes "length s < 2 ^ 31"
  shows "unat (scast (Num s) :: 64 word) = length s"
proof -
  from assms have "(scast (Num s) :: 64 word) = word_of_nat (length s)"
    by (simp add: scast_eq sint_Num)
  moreover have "length s < 2 ^ 64" using assms by (rule less_trans) simp
  ultimately show ?thesis by (simp add: unat_of_nat)
qed

lemma SetNum_length:
  "0 \<le> sint n \<Longrightarrow> \<exists>ds. SetNum dflt n dest = Inr ds \<and> length ds = nat (sint n)"
  by (auto simp: SetNum_def)

text \<open>
  C9, as amended. Let the element codec write the items \<open>enc x\<close> for an element \<open>x\<close> and,
  reading them into a destination element \<open>d\<close>, consume exactly these items and leave
  \<open>dec x d\<close>. For every sequence \<open>s\<close> a \<^verbatim>\<open>TArray\<close> can hold (its count fits an \<^verbatim>\<open>int32\<close>), of
  length 0, 1 or more, saving writes a size tag equal to the element count and then the
  elements in order; loading what was saved, into any destination, resizes the
  destination to the count and gives a sequence of the same length whose element at each
  position is what the element codec loads from the saved element at that position. It
  is \<open>s\<close> itself, the same elements in the same order, when the element codec loads back
  what it saved.
\<close>

theorem TArray_round_trip:
  assumes W: "\<And>out x. ser (OutputArchive out) x = Inr (OutputArchive (out @ enc x), x)"
    and R: "\<And>inp x d. ser (InputArchive (enc x @ inp)) d = Inr (InputArchive inp, dec x d)"
    and len: "length s < 2 ^ 31"
  shows "\<exists>tag ds. unat tag = length s \<and>
     save_TArray ser (OutputArchive out) s =
       Inr (OutputArchive (out @ SizeTag tag # concat (map enc s))) \<and>
     SetNum dflt (ucast tag) dest = Inr ds \<and> length ds = length s \<and>
     load_TArray ser dflt (InputArchive (SizeTag tag # concat (map enc s) @ inp)) dest =
       Inr (InputArchive inp, map2 dec s ds) \<and>
     length (map2 dec s ds) = length s \<and>
     (\<forall>i < length s. map2 dec s ds ! i = dec (s ! i) (ds ! i)) \<and>
     ((\<forall>x d. dec x d = x) \<longrightarrow> map2 dec s ds = s)"
proof -
  define tag :: "64 word" where "tag = scast (Num s)"
  have t: "unat tag = length s" using len by (simp add: tag_def unat_size_tag)
  have sv: "save_TArray ser (OutputArchive out) s =
       Inr (OutputArchive (out @ SizeTag tag # concat (map enc s)))"
    by (simp add: save_TArray_def and_then_def tag_def save_TArray_loop_appends [OF W])
  have n: "sint (ucast tag :: int32) = int (length s)"
    using len by (simp add: tag_def ucast_scast_int32 sint_Num)
  then have "0 \<le> sint (ucast tag :: int32)" by simp
  from SetNum_length [OF this, of dflt dest] n obtain ds where
    ds: "SetNum dflt (ucast tag) dest = Inr ds" "length ds = length s" by auto
  have ld: "load_TArray ser dflt (InputArchive (SizeTag tag # concat (map enc s) @ inp)) dest =
       Inr (InputArchive inp, map2 dec s ds)"
    using load_TArray_loop_reads [of ser enc dec ds s inp, OF R ds(2)]
    by (simp add: load_TArray_def and_then_def ds(1))
  have l2: "length (map2 dec s ds) = length s" using ds(2) by simp
  have nth: "\<forall>i < length s. map2 dec s ds ! i = dec (s ! i) (ds ! i)"
    using ds(2) by simp
  have same: "(\<forall>x d. dec x d = x) \<longrightarrow> map2 dec s ds = s"
    using map2_first [OF ds(2)] by blast
  from t sv ds ld l2 nth same show ?thesis by blast
qed

theorem TArray_round_trip_witness:
  "length [3, 1, 2 :: int32] < 2 ^ 31 \<and>
   save_TArray ar_int32 (OutputArchive ([] :: real item list)) [3, 1, 2] =
     Inr (OutputArchive [SizeTag 3, Int32 3, Int32 1, Int32 2]) \<and>
   load_TArray ar_int32 0 (InputArchive [SizeTag 3, Int32 3, Int32 1, Int32 2 :: real item]) [9] =
     Inr (InputArchive [], [3, 1, 2]) \<and>
   (\<exists>tag ds. unat tag = length [3, 1, 2 :: int32] \<and>
     save_TArray ar_int32 (OutputArchive ([] :: real item list)) [3, 1, 2] =
       Inr (OutputArchive ([] @ SizeTag tag # concat (map (\<lambda>x. [Int32 x]) [3, 1, 2]))) \<and>
     SetNum (0 :: int32) (ucast tag) [9] = Inr ds \<and> length ds = length [3, 1, 2 :: int32] \<and>
     load_TArray ar_int32 0
       (InputArchive (SizeTag tag # concat (map (\<lambda>x. [Int32 x]) [3, 1, 2]) @ [])) [9] =
       Inr (InputArchive ([] :: real item list), map2 (\<lambda>x d. x) [3, 1, 2] ds) \<and>
     map2 (\<lambda>x d. x) [3, 1, 2 :: int32] ds = [3, 1, 2])"
proof -
  have w: "\<And>out x. ar_int32 (OutputArchive (out :: real item list)) x =
      Inr (OutputArchive (out @ [Int32 x]), x)"
    by simp
  have r: "\<And>inp x d. ar_int32 (InputArchive ([Int32 x] @ (inp :: real item list))) d =
      Inr (InputArchive inp, x)"
    by simp
  have l: "length [3, 1, 2 :: int32] < 2 ^ 31" by simp
  have sv: "save_TArray ar_int32 (OutputArchive ([] :: real item list)) [3, 1, 2] =
     Inr (OutputArchive [SizeTag 3, Int32 3, Int32 1, Int32 2])"
    by (simp add: save_TArray_def and_then_def Num_def)
  have "replicate 2 (0 :: int32) = [0, 0]" by (simp add: numeral_2_eq_2)
  then have ld: "load_TArray ar_int32 0
      (InputArchive [SizeTag 3, Int32 3, Int32 1, Int32 2 :: real item]) [9] =
     Inr (InputArchive [], [3, 1, 2])"
    by (simp add: load_TArray_def and_then_def SetNum_def)
  from TArray_round_trip [of ar_int32 "\<lambda>x. [Int32 x]" "\<lambda>x d. x" "[3, 1, 2]" "[]" 0 "[9]" "[]",
      OF w r l]
  have ex: "\<exists>tag ds. unat tag = length [3, 1, 2 :: int32] \<and>
     save_TArray ar_int32 (OutputArchive ([] :: real item list)) [3, 1, 2] =
       Inr (OutputArchive ([] @ SizeTag tag # concat (map (\<lambda>x. [Int32 x]) [3, 1, 2]))) \<and>
     SetNum (0 :: int32) (ucast tag) [9] = Inr ds \<and> length ds = length [3, 1, 2 :: int32] \<and>
     load_TArray ar_int32 0
       (InputArchive (SizeTag tag # concat (map (\<lambda>x. [Int32 x]) [3, 1, 2]) @ [])) [9] =
       Inr (InputArchive ([] :: real item list), map2 (\<lambda>x d. x) [3, 1, 2] ds) \<and>
     map2 (\<lambda>x d. x) [3, 1, 2 :: int32] ds = [3, 1, 2]"
    by (elim exE conjE, intro exI conjI) simp_all
  show ?thesis by (rule conjI l sv ld ex)+
qed

text \<open>
  C9 as stated fails for an element type whose codec does not load back what it saved.
  The class-reference codec is one, by design: with no class registered, the array of the
  one handle \<open>Some 2\<close> is saved as the size tag \<open>1\<close> and the sentinel, and loaded as the array
  of the empty handle. The length is kept, the element is not.
\<close>

theorem TArray_round_trip_counterexample:
  "save_TArray (serialize_TSubclassOfType_in ([] :: nat TSubclassOfMap))
     (OutputArchive ([] :: real item list)) [Some 2] =
     Inr (OutputArchive [SizeTag 1, Int32 INT_MIN]) \<and>
   load_TArray (serialize_TSubclassOfType_in ([] :: nat TSubclassOfMap)) None
     (InputArchive [SizeTag 1, Int32 INT_MIN :: real item]) [] =
     Inr (InputArchive [], [None]) \<and>
   [None] \<noteq> [Some (2 :: nat)]"
  by (simp add: save_TArray_def load_TArray_def and_then_def Num_def SetNum_def
      serialize_TSubclassOfType_in_def serialize_TSubclassOfType_def GetIdOfTSubclassOf_def
      GetTSubclassOfFromId_def)

end
